theory Spec2Isabelle
  imports Complex_Main "HOL-Library.Multiset"
begin

section \<open>Python values and dicts\<close>

text \<open>
  The services exchange user data as Python dicts with string keys.  A dict is an
  association list in insertion order; the values that occur are \<open>None\<close>, integers and
  strings.  \<open>d[k] = v\<close> replaces the value of an existing key in place and appends a new
  key at the end, as Python does.
\<close>

datatype pyval = PNone | PInt int | PStr string

type_synonym pydict = "(string \<times> pyval) list"

fun dict_set :: "string \<Rightarrow> 'v \<Rightarrow> (string \<times> 'v) list \<Rightarrow> (string \<times> 'v) list" where
  "dict_set k v [] = [(k, v)]"
| "dict_set k v ((k', v') # d) =
     (if k' = k then (k, v) # d else (k', v') # dict_set k v d)"

definition dict_get :: "(string \<times> 'v) list \<Rightarrow> string \<Rightarrow> 'v option" where
  "dict_get d k = map_of d k"

definition dict_keys :: "(string \<times> 'v) list \<Rightarrow> string list" where
  "dict_keys d = map fst d"

text \<open>Truthiness of an \<open>Optional[Dict]\<close>: \<open>None\<close> and the empty dict are falsy.\<close>

fun truthy :: "pydict option \<Rightarrow> bool" where
  "truthy None = False"
| "truthy (Some d) = (d \<noteq> [])"

text \<open>An exception is carried as its message; no handler of the modelled code inspects it.\<close>

datatype exn = Exception string

section \<open>DataSourceService (services/datasource\_service.py)\<close>

datatype DataSource = LAKE | RDS

fun DataSource_value :: "DataSource \<Rightarrow> string" where
  "DataSource_value LAKE = ''lake''"
| "DataSource_value RDS = ''rds''"

text \<open>
  A \<open>datetime\<close> is an abstract timestamp; \<open>datetime.utcnow()\<close> is the argument \<open>now\<close>
  of the two switch operations, and \<open>isoformat\<close> is kept symbolic as \<open>RTime\<close>.
\<close>

type_synonym datetime = real

datatype resval = RStr string | RTime datetime | RNone | RBool bool

record DataSourceService =
  current_source :: DataSource
  switch_timestamp :: "datetime option"

definition DataSourceService_init :: DataSourceService where
  "DataSourceService_init = \<lparr>current_source = LAKE, switch_timestamp = None\<rparr>"

definition is_lake_active :: "DataSourceService \<Rightarrow> bool" where
  "is_lake_active s = (current_source s = LAKE)"

definition is_rds_active :: "DataSourceService \<Rightarrow> bool" where
  "is_rds_active s = (current_source s = RDS)"

definition switch_to_rds ::
  "datetime \<Rightarrow> DataSourceService \<Rightarrow> (string \<times> resval) list \<times> DataSourceService" where
  "switch_to_rds now s =
     (if current_source s = RDS then
        ([(''status'', RStr ''already_active''),
          (''current_source'', RStr (DataSource_value (current_source s))),
          (''message'', RStr ''RDS is already the active data source'')], s)
      else
        let s' = s\<lparr>current_source := RDS, switch_timestamp := Some now\<rparr> in
        ([(''status'', RStr ''switched''),
          (''previous_source'', RStr (DataSource_value LAKE)),
          (''current_source'', RStr (DataSource_value (current_source s'))),
          (''switched_at'', RTime now),
          (''message'', RStr ''Successfully switched to RDS data source'')], s'))"

definition switch_to_lake ::
  "datetime \<Rightarrow> DataSourceService \<Rightarrow> (string \<times> resval) list \<times> DataSourceService" where
  "switch_to_lake now s =
     (if current_source s = LAKE then
        ([(''status'', RStr ''already_active''),
          (''current_source'', RStr (DataSource_value (current_source s))),
          (''message'', RStr ''Lake (Trino + Kafka) is already the active data source'')], s)
      else
        let s' = s\<lparr>current_source := LAKE, switch_timestamp := Some now\<rparr> in
        ([(''status'', RStr ''switched''),
          (''previous_source'', RStr (DataSource_value RDS)),
          (''current_source'', RStr (DataSource_value (current_source s'))),
          (''switched_at'', RTime now),
          (''message'', RStr ''Successfully switched to Lake (Trino + Kafka) data source'')], s'))"

definition get_status :: "DataSourceService \<Rightarrow> (string \<times> resval) list" where
  "get_status s =
     [(''current_source'', RStr (DataSource_value (current_source s))),
      (''last_switched_at'', (case switch_timestamp s of Some t \<Rightarrow> RTime t | None \<Rightarrow> RNone)),
      (''lake_active'', RBool (is_lake_active s)),
      (''rds_active'', RBool (is_rds_active s))]"

section \<open>RedisService (services/redis\_service.py)\<close>

text \<open>
  The cache holds the set \<open>user_ids\<close> (members \<open>str(user_id)\<close>) and one hash
  \<open>user:{user_id}\<close> per user.  User ids are integers, as the type hints of the service
  say, and both key formats are injective on integers, so the set and the hashes are
  indexed by the integer itself.  A hash is a list of field/value pairs; as in Redis, a
  key with no field does not exist, so the absent hash is \<open>[]\<close>.

  Every method of the service wraps its Redis command in \<open>try/except\<close>.  Whether a
  command raises (connection lost, client not connected, a value the client refuses to
  encode) is decided by the environment: \<open>cmd_raises\<close>.
\<close>

datatype redis_cmd = SISMEMBER int | SADD_HSET int | HGETALL int | SCARD

record RedisService =
  user_ids :: "int set"
  hashes :: "int \<Rightarrow> (string \<times> string) list"
  cmd_raises :: "redis_cmd \<Rightarrow> bool"

text \<open>\<open>HSET key mapping\<close>: every field of the mapping is set in the hash.\<close>

fun hset :: "(string \<times> string) list \<Rightarrow> (string \<times> string) list \<Rightarrow> (string \<times> string) list" where
  "hset h [] = h"
| "hset h ((f, v) # mapping) = hset (dict_set f v h) mapping"

text \<open>
  \<open>add_user_data\<close>: the pipeline (\<open>SADD\<close>, \<open>HSET\<close>, \<open>execute\<close>) runs as one
  transaction; the method returns \<open>True\<close>, or \<open>False\<close> when the pipeline raised.
\<close>

definition add_user_data ::
  "RedisService \<Rightarrow> int \<Rightarrow> string \<Rightarrow> string \<Rightarrow> string \<Rightarrow> bool \<times> RedisService" where
  "add_user_data r user_id consumer_token platform device_id =
     (if cmd_raises r (SADD_HSET user_id) then (False, r)
      else
        let user_data = [(''consumer_token'', consumer_token),
                         (''platform'', platform),
                         (''device_id'', device_id)]
        in (True, r\<lparr>user_ids := insert user_id (user_ids r),
                      hashes := (hashes r)(user_id := hset (hashes r user_id) user_data)\<rparr>))"

fun opt_str :: "string option \<Rightarrow> pyval" where
  "opt_str None = PNone"
| "opt_str (Some s) = PStr s"

definition get_user_data :: "RedisService \<Rightarrow> int \<Rightarrow> pydict option" where
  "get_user_data r user_id =
     (if cmd_raises r (HGETALL user_id) then None
      else
        let user_data = hashes r user_id in
        if user_data = [] then None
        else Some [(''user_id'', PInt user_id),
                   (''consumer_token'', opt_str (dict_get user_data ''consumer_token'')),
                   (''platform'', opt_str (dict_get user_data ''platform'')),
                   (''device_id'', opt_str (dict_get user_data ''device_id''))])"

definition user_exists :: "RedisService \<Rightarrow> int \<Rightarrow> bool" where
  "user_exists r user_id =
     (if cmd_raises r (SISMEMBER user_id) then False else user_id \<in> user_ids r)"

definition get_user_count :: "RedisService \<Rightarrow> nat" where
  "get_user_count r = (if cmd_raises r SCARD then 0 else card (user_ids r))"

section \<open>TrinoService (services/trino\_service.py)\<close>

text \<open>
  The service is the outcome of its one query: \<open>cursor.execute\<close> followed by
  \<open>fetchall\<close> either raises or yields the rows of the table, each a tuple of user id,
  consumer token, platform and device id.
\<close>

type_synonym trino_row = "int \<times> string \<times> string \<times> string"

type_synonym TrinoService = "exn + trino_row list"

record user =
  u_user_id :: int
  u_consumer_token :: string
  u_platform :: string
  u_device_id :: string

fun row_to_user :: "trino_row \<Rightarrow> user" where
  "row_to_user (r0, r1, r2, r3) =
     \<lparr>u_user_id = r0, u_consumer_token = r1, u_platform = r2, u_device_id = r3\<rparr>"

definition fetch_all_users :: "TrinoService \<Rightarrow> user list" where
  "fetch_all_users t = (case t of Inl e \<Rightarrow> [] | Inr rows \<Rightarrow> map row_to_user rows)"

section \<open>SyncService (services/sync\_service.py)\<close>

text \<open>
  \<open>initial_sync\<close> returns nothing; what it reports is what it logs: either the warning
  that no users were fetched, or the final line with the numbers of added and skipped
  users and the user count of the cache.  The loop is \<open>sync_users\<close>, with the two
  counters and the cache as accumulators.  The \<open>except\<close> clause of the method re-raises,
  but every call in its body catches its own exceptions, so the method always returns.
\<close>

datatype sync_log = NoUsersFetched | SyncCompleted nat nat nat

fun sync_users :: "user list \<Rightarrow> nat \<Rightarrow> nat \<Rightarrow> RedisService \<Rightarrow> nat \<times> nat \<times> RedisService" where
  "sync_users [] added_count skipped_count r = (added_count, skipped_count, r)"
| "sync_users (u # us) added_count skipped_count r =
     (if \<not> user_exists r (u_user_id u) then
        sync_users us (added_count + 1) skipped_count
          (snd (add_user_data r (u_user_id u) (u_consumer_token u) (u_platform u) (u_device_id u)))
      else sync_users us added_count (skipped_count + 1) r)"

definition initial_sync :: "TrinoService \<Rightarrow> RedisService \<Rightarrow> exn + (sync_log \<times> RedisService)" where
  "initial_sync t r =
     (let us = fetch_all_users t in
      if us = [] then Inr (NoUsersFetched, r)
      else
        case sync_users us 0 0 r of
          (added_count, skipped_count, r') \<Rightarrow>
            Inr (SyncCompleted added_count skipped_count (get_user_count r'), r'))"

section \<open>RDSService (services/rds\_service.py)\<close>

text \<open>
  The failover store is the table the query reads, with nullable string columns, and
  the environment's decision whether opening the cursor or executing the query raises.
  \<open>LIMIT 1\<close> takes the first row whose \<open>user_id\<close> matches.
\<close>

record rds_row =
  row_user_id :: int
  row_consumer_token :: "string option"
  row_platform :: "string option"
  row_device_id :: "string option"

record RDSService =
  rds_rows :: "rds_row list"
  query_raises :: "int \<Rightarrow> bool"

text \<open>The expression \<open>x or ''\<close> on a nullable string.\<close>

fun or_empty :: "string option \<Rightarrow> string" where
  "or_empty None = []"
| "or_empty (Some s) = s"

definition get_user_by_id :: "RDSService \<Rightarrow> int \<Rightarrow> exn + pydict option" where
  "get_user_by_id rds user_id =
     (if query_raises rds user_id then Inl (Exception ''rds'')
      else
        case find (\<lambda>row. row_user_id row = user_id) (rds_rows rds) of
          None \<Rightarrow> Inr None
        | Some row \<Rightarrow>
            Inr (Some [(''user_id'', PInt (row_user_id row)),
                       (''platform'', PStr (or_empty (row_platform row))),
                       (''device_id'', PStr (or_empty (row_device_id row)))]))"

section \<open>ParallelFetchService (services/parallel\_fetch\_service.py)\<close>

definition fetch_user_from_redis :: "RedisService \<Rightarrow> int \<Rightarrow> pydict option" where
  "fetch_user_from_redis r user_id =
     (let result = get_user_data r user_id in
      if truthy result then map_option (dict_set ''source'' (PStr ''redis'')) result
      else result)"

definition fetch_user_from_rds :: "RDSService \<Rightarrow> int \<Rightarrow> pydict option" where
  "fetch_user_from_rds rds user_id =
     (case get_user_by_id rds user_id of
        Inl e \<Rightarrow> None
      | Inr result \<Rightarrow>
          if truthy result then map_option (dict_set ''source'' (PStr ''rds'')) result
          else result)"

text \<open>
  The race of the two lookups is decided by the scheduler.  \<open>asyncio.wait\<close> with
  \<open>FIRST_COMPLETED\<close> returns the set \<open>done\<close> of the tasks that have completed, one or
  both, iterated in some order, and the set \<open>pending\<close> of the others; \<open>wait_for\<close> on a
  pending task either yields its result or times out after two seconds.  Both choices are
  an input of the model.
\<close>

datatype first_completed = RedisDone | RdsDone | BothRedisRds | BothRdsRedis

record schedule =
  completed :: first_completed
  fallback_timed_out :: bool

datatype task = RedisTask | RdsTask

fun done_tasks :: "first_completed \<Rightarrow> task list" where
  "done_tasks RedisDone = [RedisTask]"
| "done_tasks RdsDone = [RdsTask]"
| "done_tasks BothRedisRds = [RedisTask, RdsTask]"
| "done_tasks BothRdsRedis = [RdsTask, RedisTask]"

fun pending_tasks :: "first_completed \<Rightarrow> task list" where
  "pending_tasks RedisDone = [RdsTask]"
| "pending_tasks RdsDone = [RedisTask]"
| "pending_tasks BothRedisRds = []"
| "pending_tasks BothRdsRedis = []"

fun task_result :: "RedisService \<Rightarrow> RDSService \<Rightarrow> int \<Rightarrow> task \<Rightarrow> pydict option" where
  "task_result r rds user_id RedisTask = fetch_user_from_redis r user_id"
| "task_result r rds user_id RdsTask = fetch_user_from_rds rds user_id"

text \<open>The loop over \<open>done\<close>: the first truthy result, if any.\<close>

fun first_of_done :: "pydict option list \<Rightarrow> pydict option" where
  "first_of_done [] = None"
| "first_of_done (result # results) =
     (if truthy result then result else first_of_done results)"

text \<open>The loop over \<open>pending\<close>: a timeout is logged and the loop goes on.\<close>

fun first_of_pending :: "bool \<Rightarrow> pydict option list \<Rightarrow> pydict option" where
  "first_of_pending timed_out [] = None"
| "first_of_pending timed_out (result # results) =
     (if timed_out then first_of_pending timed_out results
      else if truthy result then result
      else first_of_pending timed_out results)"

definition fetch_user_parallel ::
  "RedisService \<Rightarrow> RDSService \<Rightarrow> schedule \<Rightarrow> int \<Rightarrow> pydict option" where
  "fetch_user_parallel r rds sched user_id =
     (let first_result =
            first_of_done (map (task_result r rds user_id) (done_tasks (completed sched)))
      in if \<not> truthy first_result then
           first_of_pending (fallback_timed_out sched)
             (map (task_result r rds user_id) (pending_tasks (completed sched)))
         else first_result)"

text \<open>
  \<open>asyncio.gather\<close> with \<open>return_exceptions=True\<close> yields, per user id, the value of
  the race or the exception its coroutine raised.  The body of the race catches every
  exception, so only what precedes it (entering the semaphore) can raise; whether it does
  is an input, one per call.
\<close>

datatype race_outcome = Raised exn | Ran schedule

fun gather_result :: "RedisService \<Rightarrow> RDSService \<Rightarrow> int \<times> race_outcome \<Rightarrow> exn + pydict option" where
  "gather_result r rds (user_id, Raised e) = Inl e"
| "gather_result r rds (user_id, Ran sched) = Inr (fetch_user_parallel r rds sched user_id)"

record fetch_result =
  users :: "pydict list"
  total :: nat
  not_found :: "int list"

text \<open>The loop over \<open>zip(user_ids, results)\<close>, with the two output lists as accumulators.\<close>

fun process_results ::
  "(int \<times> (exn + pydict option)) list \<Rightarrow> pydict list \<Rightarrow> int list \<Rightarrow> pydict list \<times> int list" where
  "process_results [] found_users nf = (found_users, nf)"
| "process_results ((user_id, Inl e) # rest) found_users nf =
     process_results rest found_users (nf @ [user_id])"
| "process_results ((user_id, Inr None) # rest) found_users nf =
     process_results rest found_users (nf @ [user_id])"
| "process_results ((user_id, Inr (Some d)) # rest) found_users nf =
     (if d \<noteq> [] then process_results rest (found_users @ [d]) nf
      else process_results rest found_users (nf @ [user_id]))"

definition fetch_multiple_users_parallel ::
  "RedisService \<Rightarrow> RDSService \<Rightarrow> (int \<times> race_outcome) list \<Rightarrow> fetch_result" where
  "fetch_multiple_users_parallel r rds calls =
     (let ids = map fst calls;
          results = map (gather_result r rds) calls
      in case process_results (zip ids results) [] [] of
           (found_users, nf) \<Rightarrow>
             \<lparr>users = found_users, total = length found_users, not_found = nf\<rparr>)"

section \<open>KafkaService (services/kafka\_service.py)\<close>

datatype KafkaConsumer = KafkaConsumer

text \<open>
  The consumer thread and the logging handler are objects of their own; the service
  record keeps the fields that the modelled methods read and write.  The counter of
  consecutive errors is a Python integer.
\<close>

record KafkaService =
  consumer :: "KafkaConsumer option"
  running :: bool
  consecutive_errors :: int
  max_consecutive_errors :: int
  failover_triggered :: bool

definition KafkaService_init :: KafkaService where
  "KafkaService_init =
     \<lparr>consumer = None, running = False, consecutive_errors = 0,
      max_consecutive_errors = 3, failover_triggered = False\<rparr>"

subsection \<open>KafkaCoordinatorWarningHandler\<close>

text \<open>
  \<open>warning_count\<close> starts at 0 and is only incremented or reset to 0, so it is a natural
  number; \<open>time.time()\<close> is a real number of seconds, the argument \<open>now\<close> of \<open>emit\<close>.
\<close>

record KafkaCoordinatorWarningHandler =
  warning_count :: nat
  last_warning_time :: real
  warning_window :: real
  warning_threshold :: nat

definition KafkaCoordinatorWarningHandler_init :: KafkaCoordinatorWarningHandler where
  "KafkaCoordinatorWarningHandler_init =
     \<lparr>warning_count = 0, last_warning_time = 0, warning_window = 30, warning_threshold = 10\<rparr>"

record LogRecord =
  levelno :: int
  message :: string

definition WARNING :: int where
  "WARNING = 30"

text \<open>The test \<open>keyword in message\<close> on strings: \<open>keyword\<close> occurs as a substring.\<close>

fun str_contains :: "string \<Rightarrow> string \<Rightarrow> bool" where
  "str_contains keyword [] = (keyword = [])"
| "str_contains keyword (c # cs) =
     (take (length keyword) (c # cs) = keyword \<or> str_contains keyword cs)"

definition coordinator_keywords :: "string list" where
  "coordinator_keywords =
     [''NodeNotReadyError'', ''coordinator'', ''Heartbeat session expired'',
      ''connection failed'', ''timed out'', ''RequestTimedOutError'']"

definition is_coordinator_warning :: "LogRecord \<Rightarrow> bool" where
  "is_coordinator_warning record =
     (levelno record \<ge> WARNING
      \<and> list_ex (\<lambda>keyword. str_contains keyword (message record)) coordinator_keywords)"

definition emit ::
  "real \<Rightarrow> LogRecord \<Rightarrow> KafkaCoordinatorWarningHandler \<times> KafkaService
     \<Rightarrow> KafkaCoordinatorWarningHandler \<times> KafkaService" where
  "emit now record hk =
     (case hk of (h, k) \<Rightarrow>
        if is_coordinator_warning record then
          let h1 = (if now - last_warning_time h > warning_window h
                    then h\<lparr>warning_count := 0\<rparr> else h);
              h2 = h1\<lparr>warning_count := warning_count h1 + 1, last_warning_time := now\<rparr>
          in if warning_count h2 \<ge> warning_threshold h2
             then (h2\<lparr>warning_count := 0\<rparr>,
                   k\<lparr>consecutive_errors := max_consecutive_errors k\<rparr>)
             else (h2, k)
        else (h, k))"

text \<open>A sequence of log records, each with the clock reading at which it is emitted.\<close>

fun emit_all ::
  "(real \<times> LogRecord) list \<Rightarrow> KafkaCoordinatorWarningHandler \<times> KafkaService
     \<Rightarrow> KafkaCoordinatorWarningHandler \<times> KafkaService" where
  "emit_all [] hk = hk"
| "emit_all ((now, record) # rest) hk = emit_all rest (emit now record hk)"

subsection \<open>Lifecycle and health\<close>

text \<open>\<open>connect\<close>: the constructor of the consumer either raises or yields a consumer.\<close>

definition connect :: "bool \<Rightarrow> KafkaService \<Rightarrow> exn + KafkaService" where
  "connect constructor_raises k =
     (if constructor_raises then Inl (Exception ''kafka'')
      else Inr (k\<lparr>consumer := Some KafkaConsumer, consecutive_errors := 0,
                  failover_triggered := False\<rparr>))"

definition start_consuming :: "KafkaService \<Rightarrow> KafkaService" where
  "start_consuming k =
     (if \<not> running k
      then k\<lparr>running := True, consecutive_errors := 0, failover_triggered := False\<rparr>
      else k)"

definition stop_consuming :: "KafkaService \<Rightarrow> KafkaService" where
  "stop_consuming k = (if running k then k\<lparr>running := False\<rparr> else k)"

definition health_check :: "KafkaService \<Rightarrow> bool" where
  "health_check k =
     (consumer k \<noteq> None
      \<and> running k
      \<and> consecutive_errors k < max_consecutive_errors k
      \<and> \<not> failover_triggered k)"

subsection \<open>Processing one message\<close>

text \<open>
  The value of a message is the decoded JSON document, as far as \<open>process_message\<close>
  inspects it:
  \<^item> \<open>ValueNone\<close> is the tombstone, \<open>message.value is None\<close>;
  \<^item> \<open>Envelope after\<close> is a dict whose \<open>payload\<close> entry is a dict or missing, with
    \<open>after\<close> what the body finds under \<open>after\<close>: \<open>None\<close> when that entry is missing or
    falsy, so that the condition of the body fails, else the dict of the row, in which
    each of the four keys may be missing; by the type hints of \<open>add_user_data\<close> the user
    id is an integer and the other three values are strings;
  \<^item> \<open>Malformed\<close> is any other document, one on which the body raises before it reaches
    the cache (the value or its \<open>payload\<close> entry is not a dict, as in
    \<open>{"payload": null}\<close>, or the \<open>after\<close> entry is a truthy value that is not a dict);
    the \<open>except\<close> clause counts it as an error.
\<close>

record after_data =
  after_user_id :: "int option"
  after_consumer_token :: "string option"
  after_platform :: "string option"
  after_device_id :: "string option"

datatype message_value = ValueNone | Malformed | Envelope "after_data option"

definition process_message ::
  "message_value \<Rightarrow> KafkaService \<times> RedisService \<Rightarrow> KafkaService \<times> RedisService" where
  "process_message v kr =
     (case kr of (k, r) \<Rightarrow>
        case v of
          ValueNone \<Rightarrow> (k, r)
        | Malformed \<Rightarrow> (k\<lparr>consecutive_errors := consecutive_errors k + 1\<rparr>, r)
        | Envelope after \<Rightarrow>
            let r' =
              (case after of
                 None \<Rightarrow> r
               | Some a \<Rightarrow>
                   (case after_user_id a of
                      None \<Rightarrow> r
                    | Some user_id \<Rightarrow>
                        if \<not> user_exists r user_id then
                          snd (add_user_data r user_id
                                 (or_empty (after_consumer_token a))
                                 (or_empty (after_platform a))
                                 (or_empty (after_device_id a)))
                        else r))
            in (k\<lparr>consecutive_errors := 0\<rparr>, r'))"

section \<open>Notions used by the properties\<close>

text \<open>
  A store has a record for a user id when its lookup, if it does not fail, finds one: the
  hash of the user is not empty in the cache, a row with the id is in the table of the
  relational store.
\<close>

definition redis_has :: "RedisService \<Rightarrow> int \<Rightarrow> bool" where
  "redis_has r user_id = (hashes r user_id \<noteq> [])"

definition rds_has :: "RDSService \<Rightarrow> int \<Rightarrow> bool" where
  "rds_has rds user_id = (find (\<lambda>row. row_user_id row = user_id) (rds_rows rds) \<noteq> None)"

text \<open>
  What the batch loop makes of one gathered result: a race counts as found when it
  returned a truthy record, and then contributes that record.
\<close>

definition race_found :: "exn + pydict option \<Rightarrow> bool" where
  "race_found res = (case res of Inl e \<Rightarrow> False | Inr result \<Rightarrow> truthy result)"

fun found_record :: "exn + pydict option \<Rightarrow> pydict list" where
  "found_record (Inl e) = []"
| "found_record (Inr None) = []"
| "found_record (Inr (Some d)) = (if d \<noteq> [] then [d] else [])"

section \<open>Idempotence of the switch operations\<close>

text \<open>
  C5. For every router state, the switch operation that matches the current state returns
  a result with status \<open>already_active\<close> and leaves the current source and the switch
  timestamp unchanged; in particular, of two equal switch operations in a row, the second
  one does so, whatever the state before the first and whatever the two clock readings.
\<close>

theorem switch_matching_state_already_active:
  "(current_source s = RDS \<longrightarrow>
      dict_get (fst (switch_to_rds now s)) ''status'' = Some (RStr ''already_active'')
      \<and> snd (switch_to_rds now s) = s)
   \<and> (current_source s = LAKE \<longrightarrow>
      dict_get (fst (switch_to_lake now s)) ''status'' = Some (RStr ''already_active'')
      \<and> snd (switch_to_lake now s) = s)
   \<and> dict_get (fst (switch_to_rds t2 (snd (switch_to_rds t1 s)))) ''status''
        = Some (RStr ''already_active'')
   \<and> snd (switch_to_rds t2 (snd (switch_to_rds t1 s))) = snd (switch_to_rds t1 s)
   \<and> dict_get (fst (switch_to_lake t2 (snd (switch_to_lake t1 s)))) ''status''
        = Some (RStr ''already_active'')
   \<and> snd (switch_to_lake t2 (snd (switch_to_lake t1 s))) = snd (switch_to_lake t1 s)"
  by (simp add: switch_to_rds_def switch_to_lake_def dict_get_def Let_def)

theorem switch_matching_state_already_active_witness:
  "current_source \<lparr>current_source = RDS, switch_timestamp = Some 5\<rparr> = RDS
   \<and> dict_get (fst (switch_to_rds 9 \<lparr>current_source = RDS, switch_timestamp = Some 5\<rparr>))
         ''status'' = Some (RStr ''already_active'')
   \<and> snd (switch_to_rds 9 \<lparr>current_source = RDS, switch_timestamp = Some 5\<rparr>)
       = \<lparr>current_source = RDS, switch_timestamp = Some 5\<rparr>
   \<and> current_source DataSourceService_init = LAKE
   \<and> snd (switch_to_lake 9 DataSourceService_init) = DataSourceService_init"
  using switch_matching_state_already_active
    [of "\<lparr>current_source = RDS, switch_timestamp = Some 5\<rparr>" 9 9 9]
    switch_matching_state_already_active [of DataSourceService_init 9 9 9]
  by (simp add: DataSourceService_init_def)

section \<open>The anomaly window of the warning handler\<close>

lemma emit_max [simp]: "max_consecutive_errors (snd (emit now record hk)) = max_consecutive_errors (snd hk)"
  by (cases hk) (simp add: emit_def Let_def)

lemma emit_window [simp]:
  "warning_window (fst (emit now record hk)) = warning_window (fst hk)"
  "warning_threshold (fst (emit now record hk)) = warning_threshold (fst hk)"
  by (cases hk; simp add: emit_def Let_def)+

lemma emit_all_max [simp]: "max_consecutive_errors (snd (emit_all sigs hk)) = max_consecutive_errors (snd hk)"
  by (induction sigs hk rule: emit_all.induct) simp_all

lemma emit_keeps_tripped:
  "consecutive_errors (snd hk) = max_consecutive_errors (snd hk) \<Longrightarrow>
   consecutive_errors (snd (emit now record hk)) = max_consecutive_errors (snd hk)"
  by (cases hk) (simp add: emit_def Let_def)

lemma emit_all_trips:
  assumes "warning_window (fst hk) = 30" "warning_threshold (fst hk) = 10"
    and "\<forall>s \<in> set sigs. is_coordinator_warning (snd s) \<and> w \<le> fst s \<and> fst s \<le> w + 30"
    and "w \<le> last_warning_time (fst hk)" "last_warning_time (fst hk) \<le> w + 30"
    and "consecutive_errors (snd hk) = max_consecutive_errors (snd hk)
         \<or> (warning_count (fst hk) < 10 \<and> 10 \<le> warning_count (fst hk) + length sigs)"
  shows "consecutive_errors (snd (emit_all sigs hk)) = max_consecutive_errors (snd hk)"
  using assms
proof (induction sigs arbitrary: hk)
  case Nil
  then show ?case by auto
next
  case (Cons s sigs)
  obtain now rcd where s: "s = (now, rcd)" by (cases s)
  obtain h k where hk: "hk = (h, k)" by (cases hk)
  let ?hk' = "emit now rcd hk"
  have m: "is_coordinator_warning rcd" "w \<le> now" "now \<le> w + 30"
    using Cons.prems(3) s by auto
  have noreset: "\<not> now - last_warning_time h > warning_window h"
    using Cons.prems hk m by auto
  have lw: "last_warning_time (fst ?hk') = now"
    using m hk by (simp add: emit_def Let_def)
  have step: "consecutive_errors (snd ?hk') = max_consecutive_errors (snd ?hk')
         \<or> (warning_count (fst ?hk') < 10 \<and> 10 \<le> warning_count (fst ?hk') + length sigs)"
    using Cons.prems(1,2,6) m noreset hk by (auto simp add: emit_def Let_def)
  have "consecutive_errors (snd (emit_all sigs ?hk')) = max_consecutive_errors (snd ?hk')"
    using Cons.prems(1,2,3) m lw step by (intro Cons.IH) auto
  then show ?case using s by simp
qed

text \<open>
  C2. Let the handler have its window of 30 seconds and its threshold of 10.  If 10
  matching warning records are emitted at clock readings that all lie in one window of
  30 seconds, then after them the consecutive-error counter of the service equals its
  maximum and the health check fails, whatever the handler and the service were before,
  a counter of 0 included.  And a matching record emitted more than 30 seconds after the
  previous matching one leaves the window count at 1, not at the prior count plus one,
  and leaves the service as it was.
\<close>

theorem anomaly_window_forces_failed:
  assumes "warning_window h = 30" and "warning_threshold h = 10"
  shows "(length sigs = 10
          \<and> (\<forall>s \<in> set sigs. is_coordinator_warning (snd s) \<and> w \<le> fst s \<and> fst s \<le> w + 30)
          \<longrightarrow> consecutive_errors (snd (emit_all sigs (h, k))) = max_consecutive_errors k
              \<and> \<not> health_check (snd (emit_all sigs (h, k))))
       \<and> (is_coordinator_warning rcd \<and> now - last_warning_time h > 30
          \<longrightarrow> warning_count (fst (emit now rcd (h, k))) = 1
              \<and> snd (emit now rcd (h, k)) = k)"
proof (intro conjI impI)
  assume a: "length sigs = 10
    \<and> (\<forall>s \<in> set sigs. is_coordinator_warning (snd s) \<and> w \<le> fst s \<and> fst s \<le> w + 30)"
  then obtain s rest where sigs: "sigs = s # rest" and len: "length rest = 9"
    by (cases sigs) auto
  obtain t rcd1 where s: "s = (t, rcd1)" by (cases s)
  let ?hk = "emit t rcd1 (h, k)"
  have m: "is_coordinator_warning rcd1" "w \<le> t" "t \<le> w + 30"
    using a sigs s by auto
  have lw: "last_warning_time (fst ?hk) = t"
    using m by (simp add: emit_def Let_def)
  have inv: "consecutive_errors (snd ?hk) = max_consecutive_errors (snd ?hk)
      \<or> (warning_count (fst ?hk) < 10 \<and> 10 \<le> warning_count (fst ?hk) + length rest)"
    using m assms len by (auto simp add: emit_def Let_def)
  have "consecutive_errors (snd (emit_all rest ?hk)) = max_consecutive_errors (snd ?hk)"
    using assms a sigs m lw inv by (intro emit_all_trips [where w = w]) auto
  then show tripped:
    "consecutive_errors (snd (emit_all sigs (h, k))) = max_consecutive_errors k"
    using sigs s by simp
  then show "\<not> health_check (snd (emit_all sigs (h, k)))"
    by (simp add: health_check_def)
next
  assume "is_coordinator_warning rcd \<and> now - last_warning_time h > 30"
  then show "warning_count (fst (emit now rcd (h, k))) = 1"
    using assms by (simp add: emit_def Let_def)
next
  assume "is_coordinator_warning rcd \<and> now - last_warning_time h > 30"
  then show "snd (emit now rcd (h, k)) = k"
    using assms by (simp add: emit_def Let_def)
qed

theorem anomaly_window_forces_failed_witness:
  "consecutive_errors
     (snd (emit_all
        (map (\<lambda>t. (t, \<lparr>levelno = 30, message = ''Heartbeat session expired''\<rparr>))
           [1000, 1001, 1002, 1003, 1004, 1005, 1006, 1007, 1008, 1029])
        (KafkaCoordinatorWarningHandler_init,
         KafkaService_init\<lparr>consumer := Some KafkaConsumer, running := True\<rparr>))) = 3
   \<and> consecutive_errors (KafkaService_init\<lparr>consumer := Some KafkaConsumer, running := True\<rparr>) = 0
   \<and> warning_count
       (fst (emit 1031 \<lparr>levelno = 40, message = ''connection failed''\<rparr>
          (KafkaCoordinatorWarningHandler_init\<lparr>warning_count := 9, last_warning_time := 1000\<rparr>,
           KafkaService_init))) = 1"
proof -
  have r: "is_coordinator_warning \<lparr>levelno = 30, message = ''Heartbeat session expired''\<rparr>"
    "is_coordinator_warning \<lparr>levelno = 40, message = ''connection failed''\<rparr>"
    by (simp_all add: is_coordinator_warning_def coordinator_keywords_def WARNING_def)
  show ?thesis
    using r
      anomaly_window_forces_failed
        [of KafkaCoordinatorWarningHandler_init
            "map (\<lambda>t. (t, \<lparr>levelno = 30, message = ''Heartbeat session expired''\<rparr>))
               [1000, 1001, 1002, 1003, 1004, 1005, 1006, 1007, 1008, 1029]"
            1000
            "KafkaService_init\<lparr>consumer := Some KafkaConsumer, running := True\<rparr>"]
      anomaly_window_forces_failed
        [of "KafkaCoordinatorWarningHandler_init\<lparr>warning_count := 9, last_warning_time := 1000\<rparr>"
            "[]" 0 KafkaService_init "\<lparr>levelno = 40, message = ''connection failed''\<rparr>" 1031]
    by (simp add: KafkaCoordinatorWarningHandler_init_def KafkaService_init_def)
qed

section \<open>The race fetch\<close>

lemma find_holds: "find P xs = Some x \<Longrightarrow> P x"
  by (induction xs) (auto split: if_splits)

lemma fetch_user_from_redis_eq:
  "fetch_user_from_redis r user_id =
     (if cmd_raises r (HGETALL user_id) \<or> hashes r user_id = [] then None
      else Some [(''user_id'', PInt user_id),
                 (''consumer_token'', opt_str (dict_get (hashes r user_id) ''consumer_token'')),
                 (''platform'', opt_str (dict_get (hashes r user_id) ''platform'')),
                 (''device_id'', opt_str (dict_get (hashes r user_id) ''device_id'')),
                 (''source'', PStr ''redis'')])"
  by (simp add: fetch_user_from_redis_def get_user_data_def Let_def)

lemma fetch_user_from_rds_eq:
  "fetch_user_from_rds rds user_id =
     (if query_raises rds user_id then None
      else case find (\<lambda>row. row_user_id row = user_id) (rds_rows rds) of
             None \<Rightarrow> None
           | Some row \<Rightarrow>
               Some [(''user_id'', PInt user_id),
                     (''platform'', PStr (or_empty (row_platform row))),
                     (''device_id'', PStr (or_empty (row_device_id row))),
                     (''source'', PStr ''rds'')])"
proof (cases "find (\<lambda>row. row_user_id row = user_id) (rds_rows rds)")
  case None
  then show ?thesis by (simp add: fetch_user_from_rds_def get_user_by_id_def)
next
  case (Some row)
  then have "row_user_id row = user_id" by (rule find_holds)
  with Some show ?thesis by (simp add: fetch_user_from_rds_def get_user_by_id_def)
qed

lemma task_result_truthy:
  "truthy (task_result r rds user_id t) \<longleftrightarrow> task_result r rds user_id t \<noteq> None"
  by (cases t) (auto simp add: fetch_user_from_redis_eq fetch_user_from_rds_eq split: option.splits)

lemma redis_task_Some:
  "fetch_user_from_redis r user_id \<noteq> None \<longleftrightarrow>
     \<not> cmd_raises r (HGETALL user_id) \<and> redis_has r user_id"
  by (simp add: fetch_user_from_redis_eq redis_has_def)

lemma rds_task_Some:
  "fetch_user_from_rds rds user_id \<noteq> None \<longleftrightarrow>
     \<not> query_raises rds user_id \<and> rds_has rds user_id"
  by (simp add: fetch_user_from_rds_eq rds_has_def split: option.splits)

lemma fetch_user_parallel_cases:
  "fetch_user_parallel r rds sched user_id =
     (let a = fetch_user_from_redis r user_id; b = fetch_user_from_rds rds user_id in
      case completed sched of
        RedisDone \<Rightarrow> (if a \<noteq> None then a else if fallback_timed_out sched then None else b)
      | RdsDone \<Rightarrow> (if b \<noteq> None then b else if fallback_timed_out sched then None else a)
      | BothRedisRds \<Rightarrow> (if a \<noteq> None then a else b)
      | BothRdsRedis \<Rightarrow> (if b \<noteq> None then b else a))"
  using task_result_truthy [of r rds user_id RedisTask] task_result_truthy [of r rds user_id RdsTask]
  by (cases "completed sched") (auto simp add: fetch_user_parallel_def Let_def)

text \<open>
  C3, as amended.  The race returns a record only if the cache or the relational store
  has one for the id, so it returns nothing when neither has; and when no lookup raises
  and the wait for the slower lookup does not time out, it returns a record exactly when
  one of the two stores has one.
\<close>

theorem race_fetch_record_iff_some_store_has:
  "(fetch_user_parallel r rds sched user_id \<noteq> None
      \<longrightarrow> redis_has r user_id \<or> rds_has rds user_id)
   \<and> (\<not> redis_has r user_id \<and> \<not> rds_has rds user_id
      \<longrightarrow> fetch_user_parallel r rds sched user_id = None)
   \<and> (\<not> fallback_timed_out sched \<and> \<not> cmd_raises r (HGETALL user_id) \<and> \<not> query_raises rds user_id
      \<longrightarrow> (fetch_user_parallel r rds sched user_id \<noteq> None
            \<longleftrightarrow> redis_has r user_id \<or> rds_has rds user_id))"
  using redis_task_Some [of r user_id] rds_task_Some [of rds user_id]
  by (cases "completed sched") (auto simp add: fetch_user_parallel_cases Let_def)

theorem race_fetch_record_iff_some_store_has_witness:
  "fetch_user_parallel
     \<lparr>user_ids = {}, hashes = (\<lambda>i. []), cmd_raises = (\<lambda>c. False)\<rparr>
     \<lparr>rds_rows = [\<lparr>row_user_id = 7, row_consumer_token = Some ''tok'',
                   row_platform = Some ''ios'', row_device_id = None\<rparr>],
      query_raises = (\<lambda>i. False)\<rparr>
     \<lparr>completed = RedisDone, fallback_timed_out = False\<rparr> 7 \<noteq> None
   \<and> rds_has
       \<lparr>rds_rows = [\<lparr>row_user_id = 7, row_consumer_token = Some ''tok'',
                     row_platform = Some ''ios'', row_device_id = None\<rparr>],
        query_raises = (\<lambda>i. False)\<rparr> 7
   \<and> fetch_user_parallel
       \<lparr>user_ids = {}, hashes = (\<lambda>i. []), cmd_raises = (\<lambda>c. False)\<rparr>
       \<lparr>rds_rows = [\<lparr>row_user_id = 7, row_consumer_token = Some ''tok'',
                     row_platform = Some ''ios'', row_device_id = None\<rparr>],
        query_raises = (\<lambda>i. False)\<rparr>
       \<lparr>completed = RedisDone, fallback_timed_out = False\<rparr> 8 = None"
  using race_fetch_record_iff_some_store_has
    [of "\<lparr>user_ids = {}, hashes = (\<lambda>i. []), cmd_raises = (\<lambda>c. False)\<rparr>"
        "\<lparr>rds_rows = [\<lparr>row_user_id = 7, row_consumer_token = Some ''tok'',
                      row_platform = Some ''ios'', row_device_id = None\<rparr>],
          query_raises = (\<lambda>i. False)\<rparr>"
        "\<lparr>completed = RedisDone, fallback_timed_out = False\<rparr>" 7]
    race_fetch_record_iff_some_store_has
    [of "\<lparr>user_ids = {}, hashes = (\<lambda>i. []), cmd_raises = (\<lambda>c. False)\<rparr>"
        "\<lparr>rds_rows = [\<lparr>row_user_id = 7, row_consumer_token = Some ''tok'',
                      row_platform = Some ''ios'', row_device_id = None\<rparr>],
          query_raises = (\<lambda>i. False)\<rparr>"
        "\<lparr>completed = RedisDone, fallback_timed_out = False\<rparr>" 8]
  by (simp add: redis_has_def rds_has_def)

text \<open>
  The relational store has user 7 and the cache has not; the cache lookup completes
  first, with nothing, and the wait for the relational lookup times out: no record.
\<close>

theorem race_fetch_timeout_counterexample:
  "\<not> (fetch_user_parallel
        \<lparr>user_ids = {}, hashes = (\<lambda>i. []), cmd_raises = (\<lambda>c. False)\<rparr>
        \<lparr>rds_rows = [\<lparr>row_user_id = 7, row_consumer_token = Some ''tok'',
                      row_platform = Some ''ios'', row_device_id = None\<rparr>],
         query_raises = (\<lambda>i. False)\<rparr>
        \<lparr>completed = RedisDone, fallback_timed_out = True\<rparr> 7 \<noteq> None
      \<longleftrightarrow>
        redis_has \<lparr>user_ids = {}, hashes = (\<lambda>i. []), cmd_raises = (\<lambda>c. False)\<rparr> 7
        \<or> rds_has
            \<lparr>rds_rows = [\<lparr>row_user_id = 7, row_consumer_token = Some ''tok'',
                          row_platform = Some ''ios'', row_device_id = None\<rparr>],
             query_raises = (\<lambda>i. False)\<rparr> 7)"
  by (simp add: fetch_user_parallel_def fetch_user_from_redis_def fetch_user_from_rds_def
      get_user_data_def get_user_by_id_def redis_has_def rds_has_def Let_def)

lemma fetch_user_parallel_user_id:
  "fetch_user_parallel r rds sched user_id = Some d \<Longrightarrow>
     d \<noteq> [] \<and> dict_get d ''user_id'' = Some (PInt user_id)"
  by (cases "completed sched")
     (auto simp add: fetch_user_parallel_cases fetch_user_from_redis_eq fetch_user_from_rds_eq
        dict_get_def Let_def split: if_splits option.splits)

lemma fetch_user_parallel_rds_source:
  "fetch_user_parallel r rds sched user_id = Some d \<Longrightarrow>
   dict_get d ''source'' = Some (PStr ''rds'') \<Longrightarrow>
     dict_keys d = [''user_id'', ''platform'', ''device_id'', ''source'']"
  by (cases "completed sched")
     (auto simp add: fetch_user_parallel_cases fetch_user_from_redis_eq fetch_user_from_rds_eq
        dict_get_def dict_keys_def Let_def split: if_splits option.splits)

lemma process_results_eq:
  "process_results zs found_users nf =
     (found_users @ concat (map (\<lambda>z. found_record (snd z)) zs),
      nf @ map fst (filter (\<lambda>z. \<not> race_found (snd z)) zs))"
  by (induction zs found_users nf rule: process_results.induct)
     (simp_all add: race_found_def)

lemma fetch_multiple_users_parallel_eq:
  "fetch_multiple_users_parallel r rds calls =
     \<lparr>users = concat (map (\<lambda>c. found_record (gather_result r rds c)) calls),
      total = length (concat (map (\<lambda>c. found_record (gather_result r rds c)) calls)),
      not_found = map fst (filter (\<lambda>c. \<not> race_found (gather_result r rds c)) calls)\<rparr>"
proof -
  have z: "zip (map fst calls) (map (gather_result r rds) calls)
             = map (\<lambda>c. (fst c, gather_result r rds c)) calls"
    by (induction calls) auto
  show ?thesis
    by (simp add: fetch_multiple_users_parallel_def Let_def z process_results_eq
        filter_map comp_def)
qed

lemma found_record_gather:
  "found_record (gather_result r rds c) =
     (if race_found (gather_result r rds c)
      then [the (projr (gather_result r rds c))] else [])"
  "race_found (gather_result r rds c) \<Longrightarrow>
     dict_get (the (projr (gather_result r rds c))) ''user_id'' = Some (PInt (fst c))"
proof -
  obtain user_id oc where c: "c = (user_id, oc)" by (cases c)
  show "found_record (gather_result r rds c) =
     (if race_found (gather_result r rds c)
      then [the (projr (gather_result r rds c))] else [])"
  proof (cases oc)
    case (Raised e)
    with c show ?thesis by (simp add: race_found_def)
  next
    case (Ran sched)
    with c show ?thesis
      using fetch_user_parallel_user_id [of r rds sched user_id]
      by (cases "fetch_user_parallel r rds sched user_id") (simp_all add: race_found_def)
  qed
  show "race_found (gather_result r rds c) \<Longrightarrow>
     dict_get (the (projr (gather_result r rds c))) ''user_id'' = Some (PInt (fst c))"
  proof (cases oc)
    case (Raised e)
    assume "race_found (gather_result r rds c)"
    with c Raised show ?thesis by (simp add: race_found_def)
  next
    case (Ran sched)
    assume "race_found (gather_result r rds c)"
    with c Ran show ?thesis
      using fetch_user_parallel_user_id [of r rds sched user_id]
      by (cases "fetch_user_parallel r rds sched user_id") (simp_all add: race_found_def)
  qed
qed

lemma gather_result_Some:
  "gather_result r rds c = Inr (Some d) \<Longrightarrow>
     d \<noteq> [] \<and> dict_get d ''user_id'' = Some (PInt (fst c))"
proof -
  assume a: "gather_result r rds c = Inr (Some d)"
  obtain user_id oc where c: "c = (user_id, oc)" by (cases c)
  show ?thesis
  proof (cases oc)
    case (Raised e)
    with a c show ?thesis by simp
  next
    case (Ran sched)
    with a c show ?thesis
      using fetch_user_parallel_user_id [of r rds sched user_id d] by simp
  qed
qed

lemma found_user_ids:
  "map (\<lambda>d. dict_get d ''user_id'') (concat (map (\<lambda>c. found_record (gather_result r rds c)) calls))
     = map (\<lambda>c. Some (PInt (fst c))) (filter (\<lambda>c. race_found (gather_result r rds c)) calls)"
  by (induction calls) (simp_all add: found_record_gather)

text \<open>
  C4, as amended.  The batch fetch partitions the occurrences of its input.  The user
  ids of the found records together with the ids reported as not found are exactly the
  input ids, each as often as it was given.  Every call whose race raised an exception or returned nothing has its id among
  the not-found ones, every call whose race returned a record has that record, which
  bears the id of the call, among the found ones; when the input ids are distinct, an
  input id is in exactly one of the two collections.  No exception leaves the function,
  and \<open>total\<close> is the number of found records.
\<close>

theorem batch_fetch_partitions_input:
  "mset (map (\<lambda>d. dict_get d ''user_id'') (users (fetch_multiple_users_parallel r rds calls)))
     + mset (map (\<lambda>i. Some (PInt i)) (not_found (fetch_multiple_users_parallel r rds calls)))
     = mset (map (\<lambda>c. Some (PInt (fst c))) calls)
   \<and> (\<forall>c \<in> set calls.
        case gather_result r rds c of
          Inl e \<Rightarrow> fst c \<in> set (not_found (fetch_multiple_users_parallel r rds calls))
        | Inr None \<Rightarrow> fst c \<in> set (not_found (fetch_multiple_users_parallel r rds calls))
        | Inr (Some d) \<Rightarrow>
            d \<in> set (users (fetch_multiple_users_parallel r rds calls))
            \<and> dict_get d ''user_id'' = Some (PInt (fst c)))
   \<and> (distinct (map fst calls) \<longrightarrow>
        (\<forall>c \<in> set calls.
           (Some (PInt (fst c)) \<in> (\<lambda>d. dict_get d ''user_id'')
               ` set (users (fetch_multiple_users_parallel r rds calls)))
           \<noteq> (fst c \<in> set (not_found (fetch_multiple_users_parallel r rds calls)))))
   \<and> total (fetch_multiple_users_parallel r rds calls)
       = length (users (fetch_multiple_users_parallel r rds calls))"
proof (intro conjI)
  let ?res = "fetch_multiple_users_parallel r rds calls"
  let ?P = "\<lambda>c. race_found (gather_result r rds c)"
  let ?f = "\<lambda>c. Some (PInt (fst c))"
  have u: "map (\<lambda>d. dict_get d ''user_id'') (users ?res) = map ?f (filter ?P calls)"
    by (simp add: fetch_multiple_users_parallel_eq found_user_ids)
  have n: "map (\<lambda>i. Some (PInt i)) (not_found ?res) = map ?f (filter (\<lambda>c. \<not> ?P c) calls)"
    by (simp add: fetch_multiple_users_parallel_eq comp_def)
  have "mset (map ?f (filter ?P calls)) + mset (map ?f (filter (\<lambda>c. \<not> ?P c) calls))
          = mset (map ?f calls)"
    by (induction calls) simp_all
  then show "mset (map (\<lambda>d. dict_get d ''user_id'') (users ?res))
     + mset (map (\<lambda>i. Some (PInt i)) (not_found ?res)) = mset (map ?f calls)"
    by (simp only: u n)
  show "\<forall>c \<in> set calls.
        case gather_result r rds c of
          Inl e \<Rightarrow> fst c \<in> set (not_found ?res)
        | Inr None \<Rightarrow> fst c \<in> set (not_found ?res)
        | Inr (Some d) \<Rightarrow> d \<in> set (users ?res) \<and> dict_get d ''user_id'' = Some (PInt (fst c))"
  proof
    fix c assume c: "c \<in> set calls"
    show "case gather_result r rds c of
          Inl e \<Rightarrow> fst c \<in> set (not_found ?res)
        | Inr None \<Rightarrow> fst c \<in> set (not_found ?res)
        | Inr (Some d) \<Rightarrow> d \<in> set (users ?res) \<and> dict_get d ''user_id'' = Some (PInt (fst c))"
    proof (cases "gather_result r rds c")
      case (Inl e)
      with c show ?thesis
        by (force simp add: fetch_multiple_users_parallel_eq race_found_def)
    next
      case (Inr result)
      show ?thesis
      proof (cases result)
        case None
        with Inr c show ?thesis
          by (force simp add: fetch_multiple_users_parallel_eq race_found_def)
      next
        case (Some d)
        have g: "d \<noteq> [] \<and> dict_get d ''user_id'' = Some (PInt (fst c))"
          using gather_result_Some Inr Some by blast
        then have "d \<in> set (found_record (gather_result r rds c))"
          using Inr Some by simp
        with c have "d \<in> set (users ?res)"
          by (auto simp add: fetch_multiple_users_parallel_eq)
        with g Inr Some show ?thesis by simp
      qed
    qed
  qed
  show "distinct (map fst calls) \<longrightarrow>
        (\<forall>c \<in> set calls.
           (Some (PInt (fst c)) \<in> (\<lambda>d. dict_get d ''user_id'') ` set (users ?res))
           \<noteq> (fst c \<in> set (not_found ?res)))"
  proof (intro impI ballI)
    fix c assume d: "distinct (map fst calls)" and c: "c \<in> set calls"
    have inj: "inj_on fst (set calls)" using d by (simp add: distinct_map)
    have us: "(\<lambda>d. dict_get d ''user_id'') ` set (users ?res) = ?f ` {c \<in> set calls. ?P c}"
      using arg_cong [OF u, of set] by simp
    have ns: "set (not_found ?res) = fst ` {c \<in> set calls. \<not> ?P c}"
      by (simp add: fetch_multiple_users_parallel_eq)
    have a: "Some (PInt (fst c)) \<in> ?f ` {c \<in> set calls. ?P c} \<longleftrightarrow> ?P c"
      using inj c by (auto dest: inj_onD)
    have b: "fst c \<in> fst ` {c \<in> set calls. \<not> ?P c} \<longleftrightarrow> \<not> ?P c"
      using inj c by (auto dest: inj_onD)
    show "(Some (PInt (fst c)) \<in> (\<lambda>d. dict_get d ''user_id'') ` set (users ?res))
           \<noteq> (fst c \<in> set (not_found ?res))"
      unfolding us ns a b by simp
  qed
  show "total ?res = length (users ?res)"
    by (simp add: fetch_multiple_users_parallel_eq)
qed

theorem batch_fetch_partitions_input_witness:
  "distinct (map fst [(1, Ran \<lparr>completed = RedisDone, fallback_timed_out = False\<rparr>),
                      (2, Ran \<lparr>completed = RedisDone, fallback_timed_out = False\<rparr>),
                      (3, Ran \<lparr>completed = RdsDone, fallback_timed_out = False\<rparr>),
                      (4::int, Raised (Exception ''semaphore''))])
   \<and> not_found
       (fetch_multiple_users_parallel
          \<lparr>user_ids = {1},
           hashes = (\<lambda>i. if i = 1 then [(''consumer_token'', ''t1''), (''platform'', ''ios''),
                                         (''device_id'', ''d1'')] else []),
           cmd_raises = (\<lambda>c. False)\<rparr>
          \<lparr>rds_rows = [\<lparr>row_user_id = 2, row_consumer_token = Some ''t2'',
                        row_platform = Some ''android'', row_device_id = None\<rparr>],
           query_raises = (\<lambda>i. False)\<rparr>
          [(1, Ran \<lparr>completed = RedisDone, fallback_timed_out = False\<rparr>),
           (2, Ran \<lparr>completed = RedisDone, fallback_timed_out = False\<rparr>),
           (3, Ran \<lparr>completed = RdsDone, fallback_timed_out = False\<rparr>),
           (4, Raised (Exception ''semaphore''))]) = [3, 4]
   \<and> map (\<lambda>d. dict_get d ''user_id'')
       (users
         (fetch_multiple_users_parallel
          \<lparr>user_ids = {1},
           hashes = (\<lambda>i. if i = 1 then [(''consumer_token'', ''t1''), (''platform'', ''ios''),
                                         (''device_id'', ''d1'')] else []),
           cmd_raises = (\<lambda>c. False)\<rparr>
          \<lparr>rds_rows = [\<lparr>row_user_id = 2, row_consumer_token = Some ''t2'',
                        row_platform = Some ''android'', row_device_id = None\<rparr>],
           query_raises = (\<lambda>i. False)\<rparr>
          [(1, Ran \<lparr>completed = RedisDone, fallback_timed_out = False\<rparr>),
           (2, Ran \<lparr>completed = RedisDone, fallback_timed_out = False\<rparr>),
           (3, Ran \<lparr>completed = RdsDone, fallback_timed_out = False\<rparr>),
           (4, Raised (Exception ''semaphore''))])) = [Some (PInt 1), Some (PInt 2)]"
  using batch_fetch_partitions_input
    [of "\<lparr>user_ids = {1},
           hashes = (\<lambda>i. if i = 1 then [(''consumer_token'', ''t1''), (''platform'', ''ios''),
                                         (''device_id'', ''d1'')] else []),
           cmd_raises = (\<lambda>c. False)\<rparr>"
        "\<lparr>rds_rows = [\<lparr>row_user_id = 2, row_consumer_token = Some ''t2'',
                        row_platform = Some ''android'', row_device_id = None\<rparr>],
           query_raises = (\<lambda>i. False)\<rparr>"
        "[(1, Ran \<lparr>completed = RedisDone, fallback_timed_out = False\<rparr>),
           (2, Ran \<lparr>completed = RedisDone, fallback_timed_out = False\<rparr>),
           (3, Ran \<lparr>completed = RdsDone, fallback_timed_out = False\<rparr>),
           (4, Raised (Exception ''semaphore''))]"]
  by (simp add: fetch_multiple_users_parallel_def fetch_user_parallel_def
      fetch_user_from_redis_def fetch_user_from_rds_def get_user_data_def get_user_by_id_def
      dict_get_def Let_def)

text \<open>
  The same id given twice: only the relational store has user 5; in the first race the
  relational lookup completes first, in the second the cache lookup completes first, with
  nothing, and the wait for the relational lookup times out.  User 5 is both among the
  found records and among the ids not found.
\<close>

theorem batch_fetch_duplicate_id_counterexample:
  "Some (PInt 5) \<in> (\<lambda>d. dict_get d ''user_id'')
       ` set (users (fetch_multiple_users_parallel
           \<lparr>user_ids = {}, hashes = (\<lambda>i. []), cmd_raises = (\<lambda>c. False)\<rparr>
           \<lparr>rds_rows = [\<lparr>row_user_id = 5, row_consumer_token = Some ''t5'',
                         row_platform = Some ''ios'', row_device_id = Some ''d5''\<rparr>],
            query_raises = (\<lambda>i. False)\<rparr>
           [(5, Ran \<lparr>completed = RdsDone, fallback_timed_out = False\<rparr>),
            (5, Ran \<lparr>completed = RedisDone, fallback_timed_out = True\<rparr>)]))
   \<and> 5 \<in> set (not_found (fetch_multiple_users_parallel
           \<lparr>user_ids = {}, hashes = (\<lambda>i. []), cmd_raises = (\<lambda>c. False)\<rparr>
           \<lparr>rds_rows = [\<lparr>row_user_id = 5, row_consumer_token = Some ''t5'',
                         row_platform = Some ''ios'', row_device_id = Some ''d5''\<rparr>],
            query_raises = (\<lambda>i. False)\<rparr>
           [(5, Ran \<lparr>completed = RdsDone, fallback_timed_out = False\<rparr>),
            (5, Ran \<lparr>completed = RedisDone, fallback_timed_out = True\<rparr>)]))"
  by (simp add: fetch_multiple_users_parallel_def fetch_user_parallel_def
      fetch_user_from_redis_def fetch_user_from_rds_def get_user_data_def get_user_by_id_def
      dict_get_def Let_def)

lemma dict_get_not_key: "k \<notin> set (dict_keys d) \<Longrightarrow> dict_get d k = None"
  by (simp add: dict_get_def dict_keys_def map_of_eq_None_iff)

lemma users_from_race:
  "d \<in> set (users (fetch_multiple_users_parallel r rds calls)) \<Longrightarrow>
     \<exists>user_id sched. fetch_user_parallel r rds sched user_id = Some d"
proof -
  assume "d \<in> set (users (fetch_multiple_users_parallel r rds calls))"
  then obtain c where c: "c \<in> set calls" "d \<in> set (found_record (gather_result r rds c))"
    by (auto simp add: fetch_multiple_users_parallel_eq)
  obtain user_id oc where p: "c = (user_id, oc)" by (cases c)
  show ?thesis
  proof (cases oc)
    case (Raised e)
    with c p show ?thesis by simp
  next
    case (Ran sched)
    with c p have "fetch_user_parallel r rds sched user_id = Some d"
      by (cases "fetch_user_parallel r rds sched user_id") (auto split: if_splits)
    then show ?thesis by blast
  qed
qed

text \<open>
  C10. A record that \<open>get_user_by_id\<close> reads from the relational store has the keys
  \<open>user_id\<close>, \<open>platform\<close> and \<open>device_id\<close> and no others, whatever the row holds as
  consumer token; so a result of the race, single or in a batch, that is tagged with the
  source \<open>rds\<close> has these keys and the tag, and no \<open>consumer_token\<close>.
\<close>

theorem rds_record_never_carries_token:
  "(get_user_by_id rds user_id = Inr (Some d)
      \<longrightarrow> dict_keys d = [''user_id'', ''platform'', ''device_id'']
          \<and> dict_get d ''consumer_token'' = None)
   \<and> (fetch_user_parallel r rds sched user_id = Some d
       \<and> dict_get d ''source'' = Some (PStr ''rds'')
      \<longrightarrow> dict_keys d = [''user_id'', ''platform'', ''device_id'', ''source'']
          \<and> dict_get d ''consumer_token'' = None)
   \<and> (\<forall>u \<in> set (users (fetch_multiple_users_parallel r rds calls)).
        dict_get u ''source'' = Some (PStr ''rds'')
        \<longrightarrow> dict_get u ''consumer_token'' = None)"
proof (intro conjI impI ballI)
  assume "get_user_by_id rds user_id = Inr (Some d)"
  then show "dict_keys d = [''user_id'', ''platform'', ''device_id'']"
    by (auto simp add: get_user_by_id_def dict_keys_def split: if_splits option.splits)
  then show "dict_get d ''consumer_token'' = None"
    by (simp add: dict_get_not_key)
next
  assume "fetch_user_parallel r rds sched user_id = Some d
       \<and> dict_get d ''source'' = Some (PStr ''rds'')"
  then show "dict_keys d = [''user_id'', ''platform'', ''device_id'', ''source'']"
    using fetch_user_parallel_rds_source by blast
  then show "dict_get d ''consumer_token'' = None"
    by (simp add: dict_get_not_key)
next
  fix u
  assume "u \<in> set (users (fetch_multiple_users_parallel r rds calls))"
    and s: "dict_get u ''source'' = Some (PStr ''rds'')"
  then obtain i sc where "fetch_user_parallel r rds sc i = Some u"
    using users_from_race by blast
  with s have "dict_keys u = [''user_id'', ''platform'', ''device_id'', ''source'']"
    using fetch_user_parallel_rds_source by blast
  then show "dict_get u ''consumer_token'' = None"
    by (simp add: dict_get_not_key)
qed

theorem rds_record_never_carries_token_witness:
  "get_user_by_id
     \<lparr>rds_rows = [\<lparr>row_user_id = 2, row_consumer_token = Some ''secret'',
                   row_platform = Some ''android'', row_device_id = None\<rparr>],
      query_raises = (\<lambda>i. False)\<rparr> 2
     = Inr (Some [(''user_id'', PInt 2), (''platform'', PStr ''android''),
                  (''device_id'', PStr [])])
   \<and> dict_get [(''user_id'', PInt 2), (''platform'', PStr ''android''),
                (''device_id'', PStr [])] ''consumer_token'' = None
   \<and> fetch_user_parallel
       \<lparr>user_ids = {}, hashes = (\<lambda>i. []), cmd_raises = (\<lambda>c. False)\<rparr>
       \<lparr>rds_rows = [\<lparr>row_user_id = 2, row_consumer_token = Some ''secret'',
                     row_platform = Some ''android'', row_device_id = None\<rparr>],
        query_raises = (\<lambda>i. False)\<rparr>
       \<lparr>completed = RdsDone, fallback_timed_out = False\<rparr> 2
     = Some [(''user_id'', PInt 2), (''platform'', PStr ''android''),
             (''device_id'', PStr []), (''source'', PStr ''rds'')]
   \<and> dict_get [(''user_id'', PInt 2), (''platform'', PStr ''android''),
                (''device_id'', PStr []), (''source'', PStr ''rds'')] ''consumer_token'' = None
   \<and> users (fetch_multiple_users_parallel
       \<lparr>user_ids = {}, hashes = (\<lambda>i. []), cmd_raises = (\<lambda>c. False)\<rparr>
       \<lparr>rds_rows = [\<lparr>row_user_id = 2, row_consumer_token = Some ''secret'',
                     row_platform = Some ''android'', row_device_id = None\<rparr>],
        query_raises = (\<lambda>i. False)\<rparr>
       [(2, Ran \<lparr>completed = RdsDone, fallback_timed_out = False\<rparr>)])
     = [[(''user_id'', PInt 2), (''platform'', PStr ''android''),
             (''device_id'', PStr []), (''source'', PStr ''rds'')]]"
  using rds_record_never_carries_token
    [of "\<lparr>rds_rows = [\<lparr>row_user_id = 2, row_consumer_token = Some ''secret'',
                     row_platform = Some ''android'', row_device_id = None\<rparr>],
        query_raises = (\<lambda>i. False)\<rparr>" 2
        "[(''user_id'', PInt 2), (''platform'', PStr ''android''), (''device_id'', PStr [])]"
        "\<lparr>user_ids = {}, hashes = (\<lambda>i. []), cmd_raises = (\<lambda>c. False)\<rparr>"
        "\<lparr>completed = RdsDone, fallback_timed_out = False\<rparr>"
        "[(2, Ran \<lparr>completed = RdsDone, fallback_timed_out = False\<rparr>)]"]
    rds_record_never_carries_token
    [of "\<lparr>rds_rows = [\<lparr>row_user_id = 2, row_consumer_token = Some ''secret'',
                     row_platform = Some ''android'', row_device_id = None\<rparr>],
        query_raises = (\<lambda>i. False)\<rparr>" 2
        "[(''user_id'', PInt 2), (''platform'', PStr ''android''), (''device_id'', PStr []),
          (''source'', PStr ''rds'')]"
        "\<lparr>user_ids = {}, hashes = (\<lambda>i. []), cmd_raises = (\<lambda>c. False)\<rparr>"
        "\<lparr>completed = RdsDone, fallback_timed_out = False\<rparr>"
        "[(2, Ran \<lparr>completed = RdsDone, fallback_timed_out = False\<rparr>)]"]
  by (simp add: fetch_multiple_users_parallel_def fetch_user_parallel_def
      fetch_user_from_redis_def fetch_user_from_rds_def get_user_data_def get_user_by_id_def
      dict_get_def Let_def)

section \<open>The reconciling sync and the change events\<close>

lemma dict_set_nonempty: "dict_set k v d \<noteq> []"
  by (cases d) (auto split: if_splits)

lemma add_user_data_cmd_raises:
  "cmd_raises (snd (add_user_data r i a b c)) = cmd_raises r"
  by (simp add: add_user_data_def Let_def)

lemma add_user_data_user_ids:
  "user_ids r \<subseteq> user_ids (snd (add_user_data r i a b c))"
  by (auto simp add: add_user_data_def Let_def)

lemma add_user_data_member:
  "\<not> cmd_raises r (SADD_HSET i) \<Longrightarrow> i \<in> user_ids (snd (add_user_data r i a b c))"
  by (simp add: add_user_data_def Let_def)

lemma add_user_data_other:
  "j \<noteq> i \<Longrightarrow> hashes (snd (add_user_data r i a b c)) j = hashes r j"
  by (simp add: add_user_data_def Let_def)

lemma add_user_data_keeps_hash:
  "hashes r j \<noteq> [] \<Longrightarrow> hashes (snd (add_user_data r i a b c)) j \<noteq> []"
  by (simp add: add_user_data_def Let_def dict_set_nonempty)

lemma user_exists_add_user_data:
  "user_exists r j \<Longrightarrow> user_exists (snd (add_user_data r i a b c)) j"
  using add_user_data_user_ids [of r i a b c]
  by (auto simp add: user_exists_def add_user_data_cmd_raises split: if_splits)

lemma sync_users_cmd_raises:
  "cmd_raises (snd (snd (sync_users us a s r))) = cmd_raises r"
  by (induction us a s r rule: sync_users.induct) (simp_all add: add_user_data_cmd_raises)

lemma sync_users_user_ids:
  "user_ids r \<subseteq> user_ids (snd (snd (sync_users us a s r)))"
proof (induction us a s r rule: sync_users.induct)
  case (1 a s r)
  then show ?case by simp
next
  case (2 u us a s r)
  then show ?case
    using add_user_data_user_ids
      [of r "u_user_id u" "u_consumer_token u" "u_platform u" "u_device_id u"]
    by (auto split: if_splits)
qed


lemma sync_users_keeps_hash:
  "hashes r j \<noteq> [] \<Longrightarrow> hashes (snd (snd (sync_users us a s r))) j \<noteq> []"
  by (induction us a s r rule: sync_users.induct) (simp_all add: add_user_data_keeps_hash)

lemma sync_users_existing:
  "user_exists r j \<Longrightarrow>
     hashes (snd (snd (sync_users us a s r))) j = hashes r j
     \<and> user_exists (snd (snd (sync_users us a s r))) j"
proof (induction us a s r rule: sync_users.induct)
  case (1 a s r)
  then show ?case by simp
next
  case (2 u us a s r)
  show ?case
  proof (cases "user_exists r (u_user_id u)")
    case True
    with 2 show ?thesis by simp
  next
    case False
    let ?r = "snd (add_user_data r (u_user_id u) (u_consumer_token u) (u_platform u) (u_device_id u))"
    from False "2.prems" have ne: "j \<noteq> u_user_id u" by auto
    have e: "user_exists ?r j" using "2.prems" by (rule user_exists_add_user_data)
    have h: "hashes ?r j = hashes r j" using ne by (rule add_user_data_other)
    from "2.IH"(1) [OF _ e] False h show ?thesis by simp
  qed
qed

lemma sync_users_adds:
  "u \<in> set us \<Longrightarrow> \<not> cmd_raises r (SADD_HSET (u_user_id u)) \<Longrightarrow>
   \<not> cmd_raises r (SISMEMBER (u_user_id u)) \<Longrightarrow>
     u_user_id u \<in> user_ids (snd (snd (sync_users us a s r)))"
proof (induction us a s r rule: sync_users.induct)
  case (1 a s r)
  then show ?case by simp
next
  case (2 v us a s r)
  let ?r = "snd (add_user_data r (u_user_id v) (u_consumer_token v) (u_platform v) (u_device_id v))"
  show ?case
  proof (cases "user_exists r (u_user_id v)")
    case True
    show ?thesis
    proof (cases "u_user_id u = u_user_id v")
      case same: True
      from True have "u_user_id v \<in> user_ids r"
        by (simp add: user_exists_def split: if_splits)
      then show ?thesis
        using same True sync_users_user_ids [of r us a "s + 1"] by auto
    next
      case False
      with "2.prems" have "u \<in> set us" by auto
      with 2 True show ?thesis by simp
    qed
  next
    case False
    show ?thesis
    proof (cases "u_user_id u = u_user_id v")
      case same: True
      have "u_user_id v \<in> user_ids ?r"
        using "2.prems" same by (simp add: add_user_data_member)
      then show ?thesis
        using same False sync_users_user_ids [of ?r us "a + 1" s] by auto
    next
      case diff: False
      with "2.prems" have "u \<in> set us" by auto
      with 2 False show ?thesis by (simp add: add_user_data_cmd_raises)
    qed
  qed
qed

lemma initial_sync_cases:
  "initial_sync t r =
     (if fetch_all_users t = [] then Inr (NoUsersFetched, r)
      else Inr (SyncCompleted (fst (sync_users (fetch_all_users t) 0 0 r))
                  (fst (snd (sync_users (fetch_all_users t) 0 0 r)))
                  (get_user_count (snd (snd (sync_users (fetch_all_users t) 0 0 r)))),
                snd (snd (sync_users (fetch_all_users t) 0 0 r))))"
  by (simp add: initial_sync_def Let_def split: prod.splits)

text \<open>
  C6, as amended.  The sync of a scanned dataset always completes, and after it
  \<open>user_exists\<close> holds for every id of the dataset for which neither the write pipeline
  nor the membership test of the cache raises.
\<close>

theorem full_sync_caches_written_ids:
  "\<exists>logged r'. initial_sync (Inr rows) r = Inr (logged, r')
     \<and> cmd_raises r' = cmd_raises r
     \<and> (\<forall>row \<in> set rows.
          \<not> cmd_raises r (SADD_HSET (fst row)) \<and> \<not> cmd_raises r (SISMEMBER (fst row))
          \<longrightarrow> user_exists r' (fst row))"
proof (cases "rows = []")
  case True
  then show ?thesis by (simp add: initial_sync_cases fetch_all_users_def)
next
  case False
  let ?us = "map row_to_user rows"
  let ?r' = "snd (snd (sync_users ?us 0 0 r))"
  have c: "cmd_raises ?r' = cmd_raises r" by (rule sync_users_cmd_raises)
  have "user_exists ?r' (fst row)"
    if row: "row \<in> set rows"
      and ok: "\<not> cmd_raises r (SADD_HSET (fst row)) \<and> \<not> cmd_raises r (SISMEMBER (fst row))"
    for row
  proof -
    have i: "u_user_id (row_to_user row) = fst row" by (cases row) simp
    have "row_to_user row \<in> set ?us" using row by simp
    then have "u_user_id (row_to_user row) \<in> user_ids ?r'"
      using ok i by (intro sync_users_adds) simp_all
    then show ?thesis using ok i c by (simp add: user_exists_def)
  qed
  then show ?thesis
    using False c by (simp add: initial_sync_cases fetch_all_users_def)
qed

theorem full_sync_caches_written_ids_witness:
  "initial_sync (Inr [(1, ''t1'', ''ios'', ''d1''), (2, ''t2'', ''android'', ''d2'')])
       \<lparr>user_ids = {2}, hashes = (\<lambda>i. if i = 2 then [(''platform'', ''web'')] else []),
        cmd_raises = (\<lambda>c. False)\<rparr>
     = Inr (SyncCompleted 1 1 2,
            \<lparr>user_ids = {1, 2},
             hashes = (\<lambda>i. if i = 2 then [(''platform'', ''web'')] else [])
               (1 := [(''consumer_token'', ''t1''), (''platform'', ''ios''), (''device_id'', ''d1'')]),
             cmd_raises = (\<lambda>c. False)\<rparr>)
   \<and> user_exists
        \<lparr>user_ids = {1, 2},
         hashes = (\<lambda>i. if i = 2 then [(''platform'', ''web'')] else [])
           (1 := [(''consumer_token'', ''t1''), (''platform'', ''ios''), (''device_id'', ''d1'')]),
         cmd_raises = (\<lambda>c. False)\<rparr> 1"
  using full_sync_caches_written_ids
    [of "[(1, ''t1'', ''ios'', ''d1''), (2, ''t2'', ''android'', ''d2'')]"
        "\<lparr>user_ids = {2}, hashes = (\<lambda>i. if i = 2 then [(''platform'', ''web'')] else []),
          cmd_raises = (\<lambda>c. False)\<rparr>"]
  by (auto simp add: initial_sync_cases fetch_all_users_def user_exists_def add_user_data_def
      get_user_count_def Let_def)

text \<open>
  The write of user 1 raises: \<open>add_user_data\<close> returns \<open>False\<close>, the sync goes on
  and completes, and user 1 does not exist in the cache.
\<close>

theorem full_sync_failed_write_counterexample:
  "initial_sync (Inr [(1, ''t1'', ''ios'', ''d1'')])
       \<lparr>user_ids = {}, hashes = (\<lambda>i. []), cmd_raises = (\<lambda>c. c = SADD_HSET 1)\<rparr>
     = Inr (SyncCompleted 1 0 0,
            \<lparr>user_ids = {}, hashes = (\<lambda>i. []), cmd_raises = (\<lambda>c. c = SADD_HSET 1)\<rparr>)
   \<and> \<not> user_exists
         \<lparr>user_ids = {}, hashes = (\<lambda>i. []), cmd_raises = (\<lambda>c. c = SADD_HSET 1)\<rparr> 1"
  by (simp add: initial_sync_cases fetch_all_users_def user_exists_def add_user_data_def
      get_user_count_def Let_def)




lemma process_message_cache:
  "snd (process_message v (k, r)) = r
   \<or> (\<exists>j a b c. \<not> user_exists r j
        \<and> snd (process_message v (k, r)) = snd (add_user_data r j a b c))"
  by (cases v) (auto simp add: process_message_def Let_def split: option.splits)

text \<open>
  C9. The cache is append-only for the consumer and for the sync.  If \<open>user_exists\<close>
  holds for an id, processing any message and running any sync leave the hash of that id
  unchanged and the id existing, and a message for that very id leaves the whole cache
  unchanged.  Neither operation removes a member of the user set or empties a hash.  A
  tombstone changes neither the cache nor the service, so it does not count as an error;
  a message whose \<open>after\<close> entry is null leaves the cache unchanged and resets the error
  counter to 0.
\<close>

theorem cache_is_append_only:
  "(user_exists r i \<longrightarrow>
      hashes (snd (process_message v (k, r))) i = hashes r i
      \<and> user_exists (snd (process_message v (k, r))) i)
   \<and> (user_exists r i \<and> after_user_id a = Some i \<longrightarrow>
      snd (process_message (Envelope (Some a)) (k, r)) = r)
   \<and> (user_exists r i \<and> initial_sync t r = Inr (logged, r') \<longrightarrow>
      hashes r' i = hashes r i \<and> user_exists r' i)
   \<and> user_ids r \<subseteq> user_ids (snd (process_message v (k, r)))
   \<and> (hashes r i \<noteq> [] \<longrightarrow> hashes (snd (process_message v (k, r))) i \<noteq> [])
   \<and> (initial_sync t r = Inr (logged, r') \<longrightarrow>
      user_ids r \<subseteq> user_ids r' \<and> (hashes r i \<noteq> [] \<longrightarrow> hashes r' i \<noteq> []))
   \<and> process_message ValueNone (k, r) = (k, r)
   \<and> snd (process_message (Envelope None) (k, r)) = r
   \<and> consecutive_errors (fst (process_message (Envelope None) (k, r))) = 0"
proof (intro conjI impI)
  assume e: "user_exists r i"
  from process_message_cache [of v k r]
  show "hashes (snd (process_message v (k, r))) i = hashes r i"
  proof
    assume "snd (process_message v (k, r)) = r"
    then show ?thesis by simp
  next
    assume "\<exists>j a b c. \<not> user_exists r j
      \<and> snd (process_message v (k, r)) = snd (add_user_data r j a b c)"
    then obtain j a b c
      where j: "\<not> user_exists r j"
        "snd (process_message v (k, r)) = snd (add_user_data r j a b c)" by blast
    with e have "i \<noteq> j" by auto
    with j show ?thesis by (simp add: add_user_data_other)
  qed
  show "user_exists (snd (process_message v (k, r))) i"
    using process_message_cache [of v k r] e by (auto simp add: user_exists_add_user_data)
next
  assume "user_exists r i \<and> after_user_id a = Some i"
  then show "snd (process_message (Envelope (Some a)) (k, r)) = r"
    by (simp add: process_message_def)
next
  assume a: "user_exists r i \<and> initial_sync t r = Inr (logged, r')"
  then have "r' = r \<or> r' = snd (snd (sync_users (fetch_all_users t) 0 0 r))"
    by (auto simp add: initial_sync_cases split: if_splits)
  then show "hashes r' i = hashes r i" "user_exists r' i"
    using a sync_users_existing [of r i "fetch_all_users t" 0 0] by auto
next
  from process_message_cache [of v k r]
  show "user_ids r \<subseteq> user_ids (snd (process_message v (k, r)))"
  proof
    assume "snd (process_message v (k, r)) = r"
    then show ?thesis by simp
  next
    assume "\<exists>j a b c. \<not> user_exists r j
      \<and> snd (process_message v (k, r)) = snd (add_user_data r j a b c)"
    then obtain j a b c
      where "snd (process_message v (k, r)) = snd (add_user_data r j a b c)" by blast
    then show ?thesis by (simp add: add_user_data_user_ids)
  qed
next
  assume "hashes r i \<noteq> []"
  then show "hashes (snd (process_message v (k, r))) i \<noteq> []"
    using process_message_cache [of v k r] by (auto simp add: add_user_data_keeps_hash)
next
  assume a: "initial_sync t r = Inr (logged, r')"
  then have c: "r' = r \<or> r' = snd (snd (sync_users (fetch_all_users t) 0 0 r))"
    by (auto simp add: initial_sync_cases split: if_splits)
  then show "user_ids r \<subseteq> user_ids r'"
    using sync_users_user_ids [of r "fetch_all_users t" 0 0] by auto
  show "hashes r' i \<noteq> []" if "hashes r i \<noteq> []"
    using c that by (auto simp add: sync_users_keeps_hash)
next
  show "process_message ValueNone (k, r) = (k, r)"
    by (simp add: process_message_def)
  show "snd (process_message (Envelope None) (k, r)) = r"
    by (simp add: process_message_def)
  show "consecutive_errors (fst (process_message (Envelope None) (k, r))) = 0"
    by (simp add: process_message_def)
qed

theorem cache_is_append_only_witness:
  "user_exists
     \<lparr>user_ids = {2}, hashes = (\<lambda>i. if i = 2 then [(''platform'', ''web'')] else []),
      cmd_raises = (\<lambda>c. False)\<rparr> 2
   \<and> hashes (snd (process_message
        (Envelope (Some \<lparr>after_user_id = Some 2, after_consumer_token = Some ''t2'',
                         after_platform = Some ''android'', after_device_id = None\<rparr>))
        (KafkaService_init,
         \<lparr>user_ids = {2}, hashes = (\<lambda>i. if i = 2 then [(''platform'', ''web'')] else []),
          cmd_raises = (\<lambda>c. False)\<rparr>))) 2 = [(''platform'', ''web'')]
   \<and> (\<exists>logged r'.
        initial_sync (Inr [(1, ''t1'', ''ios'', ''d1''), (2, ''t2'', ''android'', ''d2'')])
          \<lparr>user_ids = {2}, hashes = (\<lambda>i. if i = 2 then [(''platform'', ''web'')] else []),
           cmd_raises = (\<lambda>c. False)\<rparr> = Inr (logged, r')
        \<and> hashes r' 2 = [(''platform'', ''web'')])"
proof -
  let ?r = "\<lparr>user_ids = {2}, hashes = (\<lambda>i. if i = 2 then [(''platform'', ''web'')] else []),
      cmd_raises = (\<lambda>c. False)\<rparr>"
  let ?a = "\<lparr>after_user_id = Some 2, after_consumer_token = Some ''t2'',
                         after_platform = Some ''android'', after_device_id = None\<rparr>"
  let ?t = "Inr [(1, ''t1'', ''ios'', ''d1''), (2, ''t2'', ''android'', ''d2'')] :: TrinoService"
  have e: "user_exists ?r 2" by (simp add: user_exists_def)
  obtain logged r' where s: "initial_sync ?t ?r = Inr (logged, r')"
    by (simp add: initial_sync_cases fetch_all_users_def)
  from e s cache_is_append_only [of ?r 2 "Envelope (Some ?a)" KafkaService_init ?a ?t logged r']
  show ?thesis by simp
qed

text \<open>
  C8, as amended.  With a consumer connected, the health check holds exactly when the
  service is running, the consecutive errors are below the maximum and no failover was
  triggered; without a consumer it fails, whatever the other three say.
\<close>

theorem health_check_needs_consumer:
  "(consumer k \<noteq> None \<longrightarrow>
      (health_check k \<longleftrightarrow>
         running k \<and> consecutive_errors k < max_consecutive_errors k \<and> \<not> failover_triggered k))
   \<and> (consumer k = None \<longrightarrow> \<not> health_check k)"
  by (simp add: health_check_def)

theorem health_check_needs_consumer_witness:
  "consumer (start_consuming KafkaService_init) = None
   \<and> \<not> health_check (start_consuming KafkaService_init)
   \<and> consumer (KafkaService_init\<lparr>consumer := Some KafkaConsumer, running := True\<rparr>) \<noteq> None
   \<and> health_check (KafkaService_init\<lparr>consumer := Some KafkaConsumer, running := True\<rparr>)"
  using health_check_needs_consumer [of "start_consuming KafkaService_init"]
    health_check_needs_consumer
      [of "KafkaService_init\<lparr>consumer := Some KafkaConsumer, running := True\<rparr>"]
  by (simp add: start_consuming_def KafkaService_init_def)

text \<open>
  A fresh service that is started before it is connected is running, has no error and
  no failover, and is not healthy.
\<close>

theorem health_check_other_conjunct_counterexample:
  "\<not> (health_check (start_consuming KafkaService_init) \<longleftrightarrow>
        running (start_consuming KafkaService_init)
        \<and> consecutive_errors (start_consuming KafkaService_init)
            < max_consecutive_errors (start_consuming KafkaService_init)
        \<and> \<not> failover_triggered (start_consuming KafkaService_init))"
  by (simp add: health_check_def start_consuming_def KafkaService_init_def)

end
